theory Spec2Isabelle
  imports Main
begin

section \<open>The CSS selector builder of 06-objects-tasks.js\<close>

subsection \<open>The class SelectorBuilder\<close>

text \<open>
  An instance has the two fields the constructor assigns: the accumulated string
  \<open>this.selector\<close> and the number \<open>this.order\<close>. The values of the table
  \<open>SelectorBuilder.ORDER\<close> are the numbers 0 to 6, so \<open>nat\<close> holds them, with
  \<open>===\<close> and \<open><\<close> on them as in the source.
\<close>

record SelectorBuilder =
  selector :: string
  order :: nat

definition ORDER_initial :: nat where "ORDER_initial = 0"
definition ORDER_element :: nat where "ORDER_element = 1"
definition ORDER_id :: nat where "ORDER_id = 2"
definition ORDER_class :: nat where "ORDER_class = 3"
definition ORDER_attribute :: nat where "ORDER_attribute = 4"
definition ORDER_pseudoClass :: nat where "ORDER_pseudoClass = 5"
definition ORDER_pseudoElement :: nat where "ORDER_pseudoElement = 6"

text \<open>The source throws the two message strings themselves, so an error is a string.\<close>

type_synonym error = string

definition wrongOrderProblem :: error where
  "wrongOrderProblem = ''Selector parts should be arranged in the following order: element, id, class, attribute, pseudo-class, pseudo-element''"

definition uniquenessProblem :: error where
  "uniquenessProblem = ''Element, id and pseudo-element should not occur more then one time inside the selector''"

text \<open>
  A method call on an instance either returns (the methods return \<open>this\<close>) or throws.
  Both outcomes carry the fields of the instance as the call left them, so that what a
  throwing call did to the object before it threw is part of the model.
\<close>

datatype outcome = Returned SelectorBuilder | Threw error SelectorBuilder

text \<open>\<open>constructor()\<close>\<close>

definition new_SelectorBuilder :: SelectorBuilder where
  "new_SelectorBuilder = \<lparr>selector = '''', order = ORDER_initial\<rparr>"

text \<open>\<open>updateOrder(order)\<close>: the two guards in the order of the source, then the assignment.\<close>

definition updateOrder :: "SelectorBuilder \<Rightarrow> nat \<Rightarrow> outcome" where
  "updateOrder this ord =
     (if ord = order this \<and> ord \<in> set [ORDER_element, ORDER_id, ORDER_pseudoElement]
      then Threw uniquenessProblem this
      else if ord < order this then Threw wrongOrderProblem this
      else Returned (this\<lparr>order := ord\<rparr>))"

text \<open>
  The six fragment methods: each calls \<open>updateOrder\<close> first; an exception of that call
  leaves the method at once, otherwise the fragment text is appended to \<open>this.selector\<close>.
  The methods \<open>id\<close> and \<open>class\<close> are \<open>id_sel\<close> and \<open>class_sel\<close> here, as HOL
  has taken both names.
\<close>

definition element :: "SelectorBuilder \<Rightarrow> string \<Rightarrow> outcome" where
  "element this el =
     (case updateOrder this ORDER_element of
        Threw e this' \<Rightarrow> Threw e this'
      | Returned this' \<Rightarrow> Returned (this'\<lparr>selector := selector this' @ el\<rparr>))"

definition id_sel :: "SelectorBuilder \<Rightarrow> string \<Rightarrow> outcome" where
  "id_sel this i =
     (case updateOrder this ORDER_id of
        Threw e this' \<Rightarrow> Threw e this'
      | Returned this' \<Rightarrow> Returned (this'\<lparr>selector := selector this' @ ''#'' @ i\<rparr>))"

definition class_sel :: "SelectorBuilder \<Rightarrow> string \<Rightarrow> outcome" where
  "class_sel this className =
     (case updateOrder this ORDER_class of
        Threw e this' \<Rightarrow> Threw e this'
      | Returned this' \<Rightarrow> Returned (this'\<lparr>selector := selector this' @ ''.'' @ className\<rparr>))"

definition attr :: "SelectorBuilder \<Rightarrow> string \<Rightarrow> outcome" where
  "attr this attribute =
     (case updateOrder this ORDER_attribute of
        Threw e this' \<Rightarrow> Threw e this'
      | Returned this' \<Rightarrow>
          Returned (this'\<lparr>selector := selector this' @ ''['' @ attribute @ '']''\<rparr>))"

definition pseudoClass :: "SelectorBuilder \<Rightarrow> string \<Rightarrow> outcome" where
  "pseudoClass this pc =
     (case updateOrder this ORDER_pseudoClass of
        Threw e this' \<Rightarrow> Threw e this'
      | Returned this' \<Rightarrow> Returned (this'\<lparr>selector := selector this' @ '':'' @ pc\<rparr>))"

definition pseudoElement :: "SelectorBuilder \<Rightarrow> string \<Rightarrow> outcome" where
  "pseudoElement this pe =
     (case updateOrder this ORDER_pseudoElement of
        Threw e this' \<Rightarrow> Threw e this'
      | Returned this' \<Rightarrow> Returned (this'\<lparr>selector := selector this' @ ''::'' @ pe\<rparr>))"

text \<open>\<open>stringify()\<close> and the method \<open>combine(selector1, combinator, selector2)\<close>.\<close>

definition stringify :: "SelectorBuilder \<Rightarrow> string" where
  "stringify this = selector this"

definition combine :: "SelectorBuilder \<Rightarrow> SelectorBuilder \<Rightarrow> string \<Rightarrow> SelectorBuilder \<Rightarrow> SelectorBuilder" where
  "combine this selector1 combinator selector2 =
     this\<lparr>selector := stringify selector1 @ '' '' @ combinator @ '' '' @ stringify selector2\<rparr>"

subsection \<open>The facade cssSelectorBuilder\<close>

text \<open>Every entry point makes a new instance and calls the method of the same name on it.\<close>

definition cssSelectorBuilder_element :: "string \<Rightarrow> outcome" where
  "cssSelectorBuilder_element el = element new_SelectorBuilder el"

definition cssSelectorBuilder_id :: "string \<Rightarrow> outcome" where
  "cssSelectorBuilder_id i = id_sel new_SelectorBuilder i"

definition cssSelectorBuilder_class :: "string \<Rightarrow> outcome" where
  "cssSelectorBuilder_class className = class_sel new_SelectorBuilder className"

definition cssSelectorBuilder_attr :: "string \<Rightarrow> outcome" where
  "cssSelectorBuilder_attr attribute = attr new_SelectorBuilder attribute"

definition cssSelectorBuilder_pseudoClass :: "string \<Rightarrow> outcome" where
  "cssSelectorBuilder_pseudoClass pc = pseudoClass new_SelectorBuilder pc"

definition cssSelectorBuilder_pseudoElement :: "string \<Rightarrow> outcome" where
  "cssSelectorBuilder_pseudoElement pe = pseudoElement new_SelectorBuilder pe"

definition cssSelectorBuilder_combine :: "SelectorBuilder \<Rightarrow> string \<Rightarrow> SelectorBuilder \<Rightarrow> SelectorBuilder" where
  "cssSelectorBuilder_combine selector1 combinator selector2 =
     combine new_SelectorBuilder selector1 combinator selector2"

subsection \<open>Chains of fragment calls\<close>

text \<open>
  A chained expression such as \<open>builder.id('main').class('container')\<close> is a list of
  method calls, run from left to right on the same instance; the first call that throws
  ends the whole expression.
\<close>

datatype fragment =
  Element string | Id string | Class string | Attr string | PseudoClass string | PseudoElement string

fun call :: "SelectorBuilder \<Rightarrow> fragment \<Rightarrow> outcome" where
  "call this (Element el) = element this el"
| "call this (Id i) = id_sel this i"
| "call this (Class className) = class_sel this className"
| "call this (Attr attribute) = attr this attribute"
| "call this (PseudoClass pc) = pseudoClass this pc"
| "call this (PseudoElement pe) = pseudoElement this pe"

fun chain :: "SelectorBuilder \<Rightarrow> fragment list \<Rightarrow> outcome" where
  "chain this [] = Returned this"
| "chain this (f # fs) =
     (case call this f of
        Threw e this' \<Rightarrow> Threw e this'
      | Returned this' \<Rightarrow> chain this' fs)"

text \<open>The rank of a call is the entry of \<open>SelectorBuilder.ORDER\<close> its method passes on.\<close>

fun rank :: "fragment \<Rightarrow> nat" where
  "rank (Element _) = ORDER_element"
| "rank (Id _) = ORDER_id"
| "rank (Class _) = ORDER_class"
| "rank (Attr _) = ORDER_attribute"
| "rank (PseudoClass _) = ORDER_pseudoClass"
| "rank (PseudoElement _) = ORDER_pseudoElement"

text \<open>
  The fragment texts as the specification lists them: name for element, \<open>#name\<close> for
  id, \<open>.name\<close> for class, \<open>[spec]\<close> for attr, \<open>:name\<close> for pseudoClass and
  \<open>::name\<close> for pseudoElement. The methods are compared with this table.
\<close>

fun spec_fragment_text :: "fragment \<Rightarrow> string" where
  "spec_fragment_text (Element n) = n"
| "spec_fragment_text (Id n) = ''#'' @ n"
| "spec_fragment_text (Class n) = ''.'' @ n"
| "spec_fragment_text (Attr n) = ''['' @ n @ '']''"
| "spec_fragment_text (PseudoClass n) = '':'' @ n"
| "spec_fragment_text (PseudoElement n) = ''::'' @ n"

text \<open>The three kinds that the specification allows at most once in a selector.\<close>

fun is_Element :: "fragment \<Rightarrow> bool" where
  "is_Element (Element _) = True"
| "is_Element _ = False"

fun is_Id :: "fragment \<Rightarrow> bool" where
  "is_Id (Id _) = True"
| "is_Id _ = False"

fun is_PseudoElement :: "fragment \<Rightarrow> bool" where
  "is_PseudoElement (PseudoElement _) = True"
| "is_PseudoElement _ = False"

definition once_kinds :: "fragment list \<Rightarrow> bool" where
  "once_kinds fs \<longleftrightarrow>
     length (filter is_Element fs) \<le> 1 \<and> length (filter is_Id fs) \<le> 1 \<and>
     length (filter is_PseudoElement fs) \<le> 1"

text \<open>
  What a call threw, the fields of the instance after a call, and the continuation of a
  chained expression: the next method runs on the returned instance, and an exception
  passes through.
\<close>

fun thrown :: "outcome \<Rightarrow> error option" where
  "thrown (Returned _) = None"
| "thrown (Threw e _) = Some e"

fun instance_after :: "outcome \<Rightarrow> SelectorBuilder" where
  "instance_after (Returned this) = this"
| "instance_after (Threw _ this) = this"

fun and_then :: "outcome \<Rightarrow> (SelectorBuilder \<Rightarrow> outcome) \<Rightarrow> outcome" where
  "and_then (Returned this) m = m this"
| "and_then (Threw e this) m = Threw e this"

section \<open>Rectangle\<close>

text \<open>
  \<open>new Rectangle(width, height)\<close> makes a fresh object with the two fields, and assigns
  \<open>Rectangle.prototype.getArea\<close>, a property of the one prototype object all instances
  share, an arrow function. An arrow function has no \<open>this\<close> of its own: its body reads
  the fields of the instance under construction, whoever the receiver of a later call is.
  So the state is the store of the instances (a reference is an index into it) and the
  current value of the prototype's property: \<open>None\<close> while it is undefined, else the
  instance the arrow function has captured. Numbers are any type with a product.
\<close>

record 'n Rectangle =
  width :: 'n
  height :: 'n

type_synonym ref = nat

record 'n js_state =
  store :: "'n Rectangle list"
  Rectangle_prototype_getArea :: "ref option"

definition initial_state :: "'n js_state" where
  "initial_state = \<lparr>store = [], Rectangle_prototype_getArea = None\<rparr>"

definition new_Rectangle :: "'n js_state \<Rightarrow> 'n \<Rightarrow> 'n \<Rightarrow> ref \<times> 'n js_state" where
  "new_Rectangle st w h =
     (let this = length (store st) in
      (this, st\<lparr>store := store st @ [\<lparr>width = w, height = h\<rparr>],
                  Rectangle_prototype_getArea := Some this\<rparr>))"

text \<open>
  \<open>r.getArea()\<close> for an instance \<open>r\<close>: the instance has no property \<open>getArea\<close> of its
  own, so the prototype's is called; \<open>None\<close> is the TypeError of calling what is not
  there.
\<close>

definition getArea :: "('n::times) js_state \<Rightarrow> ref \<Rightarrow> 'n option" where
  "getArea st r =
     (if r < length (store st) then
        (case Rectangle_prototype_getArea st of
           None \<Rightarrow> None
         | Some this \<Rightarrow>
             (if this < length (store st)
              then Some (width (store st ! this) * height (store st ! this))
              else None))
      else None)"

section \<open>getJSON and fromJSON\<close>

text \<open>
  An object is the list of its own enumerable properties in enumeration order, the order
  in which \<open>Object.values\<close> lists the values. \<open>JSON.stringify\<close> and \<open>JSON.parse\<close> are
  built into the language and not part of this repository: both functions take them as
  a parameter, which the model of the built-ins below instantiates. \<open>None\<close> is a text
  on which \<open>JSON.parse\<close> gives no object. The prototype object is known by its
  property \<open>constructor\<close>, called with the values as its positional arguments.
\<close>

type_synonym 'v object = "(string \<times> 'v) list"

record 'v JSON =
  JSON_stringify :: "'v object \<Rightarrow> string"
  JSON_parse :: "string \<Rightarrow> 'v object option"

record 'v prototype =
  constructor :: "'v list \<Rightarrow> 'v object"

definition Object_values :: "'v object \<Rightarrow> 'v list" where
  "Object_values obj = map snd obj"

definition getJSON :: "'v JSON \<Rightarrow> 'v object \<Rightarrow> string" where
  "getJSON J obj = JSON_stringify J obj"

definition fromJSON :: "'v JSON \<Rightarrow> 'v prototype \<Rightarrow> string \<Rightarrow> 'v object option" where
  "fromJSON J proto json =
     (case JSON_parse J json of
        None \<Rightarrow> None
      | Some obj \<Rightarrow> (let values = Object_values obj in Some (constructor proto values)))"

subsection \<open>The built-ins on flat objects\<close>

text \<open>
  Modelled from the spec: it describes \<open>getJSON\<close> and \<open>fromJSON\<close> as the standard
  library's serialisation of an object to a JSON string and its parsing, and the two
  built-ins are not code of this repository. The model follows ECMA-262
  (\<open>JSON.stringify\<close>, \<open>JSON.parse\<close>) on flat objects: the value of a property is
  \<open>undefined\<close>, \<open>null\<close>, a boolean, an integer number or a string, and a character
  is a code unit below 256. \<open>Number n\<close> is the number with the integer value \<open>n\<close>,
  printed in decimal as the language prints a safe integer.
\<close>

datatype jsvalue = Undefined | Null | Boolean bool | Number int | Str string


text \<open>The two characters with a meaning inside a JSON string.\<close>

definition quotation_mark :: char where "quotation_mark = CHR 0x22"
definition reverse_solidus :: char where "reverse_solidus = CHR 0x5C"


text \<open>Decimal digits: the text of a natural number, and the value of a text of digits.\<close>

definition is_digit :: "char \<Rightarrow> bool" where
  "is_digit c \<longleftrightarrow> 48 \<le> (of_char c :: nat) \<and> (of_char c :: nat) \<le> 57"

definition digit_char :: "nat \<Rightarrow> char" where
  "digit_char d = char_of (48 + d)"

definition digit_value :: "char \<Rightarrow> nat" where
  "digit_value c = of_char c - 48"

fun digits :: "nat \<Rightarrow> string" where
  "digits n = (if n < 10 then [digit_char n] else digits (n div 10) @ [digit_char (n mod 10)])"

definition value_of_digits :: "string \<Rightarrow> nat" where
  "value_of_digits ds = foldl (\<lambda>a c. 10 * a + digit_value c) 0 ds"


text \<open>
  \<open>QuoteJSONString\<close>: the seven characters with a short escape, every other control
  character as \<open>\u00XX\<close> in lower-case hexadecimal, and every other character as it
  is, between two quotation marks.
\<close>

definition hex_digit :: "nat \<Rightarrow> char" where
  "hex_digit d = (if d < 10 then char_of (48 + d) else char_of (87 + d))"

definition hex_value :: "char \<Rightarrow> nat option" where
  "hex_value c =
     (let n = (of_char c :: nat) in
      if 48 \<le> n \<and> n \<le> 57 then Some (n - 48)
      else if 97 \<le> n \<and> n \<le> 102 then Some (n - 87)
      else if 65 \<le> n \<and> n \<le> 70 then Some (n - 55)
      else None)"

definition quote_char :: "char \<Rightarrow> string" where
  "quote_char c =
     (if c = CHR 0x08 then [reverse_solidus, CHR ''b'']
      else if c = CHR 0x09 then [reverse_solidus, CHR ''t'']
      else if c = CHR 0x0A then [reverse_solidus, CHR ''n'']
      else if c = CHR 0x0C then [reverse_solidus, CHR ''f'']
      else if c = CHR 0x0D then [reverse_solidus, CHR ''r'']
      else if c = quotation_mark then [reverse_solidus, quotation_mark]
      else if c = reverse_solidus then [reverse_solidus, reverse_solidus]
      else if (of_char c :: nat) < 32
      then [reverse_solidus, CHR ''u'', CHR ''0'', CHR ''0'',
            hex_digit (of_char c div 16), hex_digit (of_char c mod 16)]
      else [c])"

definition QuoteJSONString :: "string \<Rightarrow> string" where
  "QuoteJSONString s = quotation_mark # concat (map quote_char s) @ [quotation_mark]"


text \<open>
  Reading a JSON string after its opening quotation mark, up to the closing one: the
  result is the string and the rest of the text. The escapes are those of the JSON
  grammar; a control character that is not escaped is a syntax error. An escape
  \<open>\uXXXX\<close> of a code unit from 256 on is outside the model, and \<open>None\<close> as well.
\<close>

definition unescape :: "char \<Rightarrow> char option" where
  "unescape e =
     (if e = quotation_mark then Some quotation_mark
      else if e = reverse_solidus then Some reverse_solidus
      else if e = CHR ''/'' then Some CHR ''/''
      else if e = CHR ''b'' then Some (CHR 0x08)
      else if e = CHR ''f'' then Some (CHR 0x0C)
      else if e = CHR ''n'' then Some (CHR 0x0A)
      else if e = CHR ''r'' then Some (CHR 0x0D)
      else if e = CHR ''t'' then Some (CHR 0x09)
      else None)"

definition hex4 :: "char \<Rightarrow> char \<Rightarrow> char \<Rightarrow> char \<Rightarrow> nat option" where
  "hex4 a b c d =
     (case (hex_value a, hex_value b, hex_value c, hex_value d) of
        (Some x, Some y, Some z, Some w) \<Rightarrow> Some (((x * 16 + y) * 16 + z) * 16 + w)
      | _ \<Rightarrow> None)"

definition cons_char :: "char \<Rightarrow> (string \<times> string) option \<Rightarrow> (string \<times> string) option" where
  "cons_char c p = (case p of None \<Rightarrow> None | Some (s, r) \<Rightarrow> Some (c # s, r))"


fun parse_string_chars :: "string \<Rightarrow> (string \<times> string) option" where
  "parse_string_chars [] = None"
| "parse_string_chars (c # cs) =
     (if c = quotation_mark then Some ([], cs)
      else if c = reverse_solidus then
        (case cs of
           [] \<Rightarrow> None
         | e # es \<Rightarrow>
             (if e = CHR ''u'' then
                (case es of
                   h1 # h2 # h3 # h4 # rest \<Rightarrow>
                     (case hex4 h1 h2 h3 h4 of
                        None \<Rightarrow> None
                      | Some n \<Rightarrow>
                          (if n < 256 then cons_char (char_of n) (parse_string_chars rest)
                           else None))
                 | _ \<Rightarrow> None)
              else
                (case unescape e of
                   None \<Rightarrow> None
                 | Some x \<Rightarrow> cons_char x (parse_string_chars es))))
      else if (of_char c :: nat) < 32 then None
      else cons_char c (parse_string_chars cs))"


text \<open>
  Numbers: an optional minus sign and the digits, without a leading zero. A fraction, an
  exponent and the negative zero are numbers that are not integers of the model, and
  \<open>None\<close>.
\<close>

definition number_text :: "int \<Rightarrow> string" where
  "number_text i = (if i < 0 then CHR ''-'' # digits (nat (- i)) else digits (nat i))"

definition parse_number :: "string \<Rightarrow> (int \<times> string) option" where
  "parse_number s =
     (let negative = (case s of [] \<Rightarrow> False | c # _ \<Rightarrow> c = CHR ''-'');
          t = (if negative then tl s else s);
          ds = takeWhile is_digit t;
          r = dropWhile is_digit t
      in if ds = [] then None
         else if hd ds = CHR ''0'' \<and> 1 < length ds then None
         else if (case r of [] \<Rightarrow> False | c # _ \<Rightarrow> c \<in> set ''.eE'') then None
         else if negative \<and> value_of_digits ds = 0 then None
         else Some (if negative then - int (value_of_digits ds) else int (value_of_digits ds), r))"


text \<open>
  Values. \<open>JSON.stringify\<close> leaves a property out whose value is \<open>undefined\<close>, which
  is \<open>None\<close> for the text of the value.
\<close>

definition literal :: "string \<Rightarrow> 'a \<Rightarrow> string \<Rightarrow> ('a \<times> string) option" where
  "literal word v s = (if take (length word) s = word then Some (v, drop (length word) s) else None)"

definition value_text :: "jsvalue \<Rightarrow> string option" where
  "value_text v =
     (case v of
        Undefined \<Rightarrow> None
      | Null \<Rightarrow> Some ''null''
      | Boolean b \<Rightarrow> Some (if b then ''true'' else ''false'')
      | Number i \<Rightarrow> Some (number_text i)
      | Str s \<Rightarrow> Some (QuoteJSONString s))"

definition parse_value :: "string \<Rightarrow> (jsvalue \<times> string) option" where
  "parse_value s =
     (case s of
        [] \<Rightarrow> None
      | c # cs \<Rightarrow>
          (if c = quotation_mark then
             (case parse_string_chars cs of None \<Rightarrow> None | Some (x, r) \<Rightarrow> Some (Str x, r))
           else if c = CHR ''n'' then literal ''null'' Null s
           else if c = CHR ''t'' then literal ''true'' (Boolean True) s
           else if c = CHR ''f'' then literal ''false'' (Boolean False) s
           else (case parse_number s of None \<Rightarrow> None | Some (i, r) \<Rightarrow> Some (Number i, r))))"


text \<open>
  \<open>JSON.stringify\<close> of a flat object, without indentation: the members that have a
  text, \<open>"key":value\<close>, separated by commas and in enumeration order, between braces.
\<close>

definition member_text :: "string \<times> jsvalue \<Rightarrow> string option" where
  "member_text m =
     (case value_text (snd m) of
        None \<Rightarrow> None
      | Some t \<Rightarrow> Some (QuoteJSONString (fst m) @ '':'' @ t))"

fun join_comma :: "string list \<Rightarrow> string" where
  "join_comma [] = []"
| "join_comma [x] = x"
| "join_comma (x # y # zs) = x @ '','' @ join_comma (y # zs)"

definition stringify_object :: "jsvalue object \<Rightarrow> string" where
  "stringify_object obj = ''{'' @ join_comma (List.map_filter member_text obj) @ ''}''"


text \<open>
  \<open>JSON.parse\<close> adds each member to the object under construction with
  \<open>CreateDataProperty\<close>: a key that is there already keeps its place and gets the new
  value; a new key that is an array index goes among the array indices, which an object
  enumerates first and in ascending order; any other new key goes last.
\<close>

definition is_array_index :: "string \<Rightarrow> bool" where
  "is_array_index k \<longleftrightarrow>
     k \<noteq> [] \<and> list_all is_digit k \<and> (length k = 1 \<or> hd k \<noteq> CHR ''0'') \<and>
     value_of_digits k < 2 ^ 32 - 1"

fun insert_index :: "string \<Rightarrow> 'v \<Rightarrow> 'v object \<Rightarrow> 'v object" where
  "insert_index k v [] = [(k, v)]"
| "insert_index k v (p # ps) =
     (if is_array_index (fst p) \<and> value_of_digits (fst p) < value_of_digits k
      then p # insert_index k v ps
      else (k, v) # p # ps)"

definition CreateDataProperty :: "'v object \<Rightarrow> string \<Rightarrow> 'v \<Rightarrow> 'v object" where
  "CreateDataProperty obj k v =
     (if k \<in> fst ` set obj then map (\<lambda>p. if fst p = k then (k, v) else p) obj
      else if is_array_index k then insert_index k v obj
      else obj @ [(k, v)])"


text \<open>
  One member, and the members up to the closing brace. The length test in
  \<open>parse_members\<close> always holds, since a member is never empty; it is there for the
  termination of the recursion.
\<close>

definition parse_member :: "string \<Rightarrow> (string \<times> jsvalue \<times> string) option" where
  "parse_member s =
     (case s of
        [] \<Rightarrow> None
      | q # s1 \<Rightarrow>
          (if q = quotation_mark then
             (case parse_string_chars s1 of
                None \<Rightarrow> None
              | Some (k, s2) \<Rightarrow>
                  (case s2 of
                     [] \<Rightarrow> None
                   | c # s3 \<Rightarrow>
                       (if c = CHR '':'' then
                          (case parse_value s3 of
                             None \<Rightarrow> None
                           | Some (v, r) \<Rightarrow> Some (k, v, r))
                        else None)))
           else None))"

fun parse_members :: "jsvalue object \<Rightarrow> string \<Rightarrow> jsvalue object option" where
  "parse_members obj s =
     (case parse_member s of
        None \<Rightarrow> None
      | Some (k, v, r) \<Rightarrow>
          (case r of
             [] \<Rightarrow> None
           | c # r' \<Rightarrow>
               (if c = CHR '','' \<and> length r' < length s
                then parse_members (CreateDataProperty obj k v) r'
                else if c = CHR ''}'' \<and> r' = [] then Some (CreateDataProperty obj k v)
                else None)))"


text \<open>
  \<open>JSON.parse\<close> of the text of a flat object. \<open>None\<close> is every text that has no
  result in the model: a text on which \<open>JSON.parse\<close> throws a SyntaxError, and a JSON
  text outside the model (white space between the tokens, nested objects and arrays,
  numbers with a fraction or an exponent, a value that is not an object).
\<close>

definition parse_object :: "string \<Rightarrow> jsvalue object option" where
  "parse_object s =
     (case s of
        [] \<Rightarrow> None
      | c # cs \<Rightarrow>
          (if c = CHR ''{'' then (if cs = ''}'' then Some [] else parse_members [] cs)
           else None))"

definition ECMAScript_JSON :: "jsvalue JSON" where
  "ECMAScript_JSON = \<lparr>JSON_stringify = stringify_object, JSON_parse = parse_object\<rparr>"

text \<open>
  A constructor that takes its fields positionally,
  \<open>function C(p1, ..., pn) { this.p1 = p1; ...; this.pn = pn; }\<close>, such as
  \<open>function Circle(radius) { this.radius = radius; }\<close>: a parameter without an
  argument is \<open>undefined\<close>, an argument without a parameter is ignored, and the
  assignments add the properties in the order of the parameters.
\<close>

definition Object_keys :: "'v object \<Rightarrow> string list" where
  "Object_keys obj = map fst obj"

definition arguments :: "nat \<Rightarrow> jsvalue list \<Rightarrow> jsvalue list" where
  "arguments n args = take n args @ replicate (n - length args) Undefined"

definition field_constructor :: "string list \<Rightarrow> jsvalue list \<Rightarrow> jsvalue object" where
  "field_constructor params args =
     foldl (\<lambda>this (p, a). CreateDataProperty this p a) []
       (zip params (arguments (length params) args))"

text \<open>
  The assignment \<open>this.__proto__ = v\<close> calls the setter that every object inherits and
  adds no property, so \<open>field_constructor\<close> is of parameters with other names.

  The values of a simple flat object: \<open>null\<close>, a boolean, a string, and a number that
  is a safe integer (\<open>Number.isSafeInteger\<close>), which the language prints in decimal.
\<close>

definition safe_integer :: "int \<Rightarrow> bool" where
  "safe_integer i \<longleftrightarrow> - (2 ^ 53 - 1) \<le> i \<and> i \<le> 2 ^ 53 - 1"

definition simple_value :: "jsvalue \<Rightarrow> bool" where
  "simple_value v =
     (case v of
        Undefined \<Rightarrow> False
      | Null \<Rightarrow> True
      | Boolean b \<Rightarrow> True
      | Number i \<Rightarrow> safe_integer i
      | Str s \<Rightarrow> True)"

text \<open>What may follow a value inside an object: a comma or the closing brace.\<close>

definition ends_value :: "string \<Rightarrow> bool" where
  "ends_value r \<longleftrightarrow> (case r of [] \<Rightarrow> False | c # _ \<Rightarrow> c = CHR '','' \<or> c = CHR ''}'')"


section \<open>Properties\<close>

lemmas ORDER_defs = ORDER_initial_def ORDER_element_def ORDER_id_def ORDER_class_def
  ORDER_attribute_def ORDER_pseudoClass_def ORDER_pseudoElement_def

lemmas fragment_defs = element_def id_sel_def class_sel_def attr_def pseudoClass_def
  pseudoElement_def


subsection \<open>One call, by cases\<close>

text \<open>
  The six methods differ in the rank they pass on and in the text they append only: one
  call is the two guards of \<open>updateOrder\<close> on the rank, then the assignment of the rank
  and the append of the fragment text of the specification's table.
\<close>

lemma messages_differ: "wrongOrderProblem \<noteq> uniquenessProblem"
  by (simp add: wrongOrderProblem_def uniquenessProblem_def)

lemma same_rank_once:
  assumes "rank g = rank f" and "rank f \<in> set [ORDER_element, ORDER_id, ORDER_pseudoElement]"
  shows "(is_Element f \<and> is_Element g) \<or> (is_Id f \<and> is_Id g) \<or>
         (is_PseudoElement f \<and> is_PseudoElement g)"
  using assms by (cases f; cases g) (simp_all add: ORDER_defs)

lemma call_cases:
  "call this f =
     (if rank f = order this \<and> rank f \<in> set [ORDER_element, ORDER_id, ORDER_pseudoElement]
      then Threw uniquenessProblem this
      else if rank f < order this then Threw wrongOrderProblem this
      else Returned \<lparr>selector = selector this @ spec_fragment_text f, order = rank f\<rparr>)"
  by (cases f) (simp_all add: fragment_defs updateOrder_def)

lemma rank_Element: "rank f = ORDER_element \<longleftrightarrow> is_Element f"
  by (cases f) (simp_all add: ORDER_defs)

lemma rank_Id: "rank f = ORDER_id \<longleftrightarrow> is_Id f"
  by (cases f) (simp_all add: ORDER_defs)

lemma rank_PseudoElement: "rank f = ORDER_pseudoElement \<longleftrightarrow> is_PseudoElement f"
  by (cases f) (simp_all add: ORDER_defs)

lemma rank_pos: "ORDER_initial < rank f"
  by (cases f) (simp_all add: ORDER_defs)

lemma filter_le_1_Cons:
  "length (filter P (f # fs)) \<le> 1 \<longleftrightarrow>
     (if P f then \<forall>g\<in>set fs. \<not> P g else length (filter P fs) \<le> 1)"
  by (auto simp: filter_empty_conv)

lemma chain_valid:
  assumes "sorted (order this # map rank fs)" and "once_kinds fs"
    and "order this \<in> set [ORDER_element, ORDER_id, ORDER_pseudoElement] \<Longrightarrow>
           \<forall>f\<in>set fs. rank f \<noteq> order this"
  shows "chain this fs =
           Returned \<lparr>selector = selector this @ concat (map spec_fragment_text fs),
                     order = last (order this # map rank fs)\<rparr>"
  using assms
proof (induction fs arbitrary: this)
  case Nil
  then show ?case by simp
next
  case (Cons f fs)
  let ?this' = "\<lparr>selector = selector this @ spec_fragment_text f, order = rank f\<rparr>"
  from Cons.prems(1) have le: "order this \<le> rank f" and srt: "sorted (rank f # map rank fs)"
    by simp_all
  from Cons.prems(3) have "\<not> (rank f = order this \<and>
      rank f \<in> set [ORDER_element, ORDER_id, ORDER_pseudoElement])"
    by auto
  with le have step: "call this f = Returned ?this'"
    by (simp add: call_cases)
  from Cons.prems(2) have once: "once_kinds fs"
    by (auto simp: once_kinds_def split: if_splits)
  have fresh: "\<forall>g\<in>set fs. rank g \<noteq> rank f"
    if "rank f \<in> set [ORDER_element, ORDER_id, ORDER_pseudoElement]"
  proof
    fix g assume g: "g \<in> set fs"
    show "rank g \<noteq> rank f"
    proof
      assume "rank g = rank f"
      from same_rank_once[OF this that] g Cons.prems(2) show False
        unfolding once_kinds_def filter_le_1_Cons by (auto split: if_splits)
    qed
  qed
  have "chain ?this' fs =
          Returned \<lparr>selector = selector ?this' @ concat (map spec_fragment_text fs),
                    order = last (order ?this' # map rank fs)\<rparr>"
    by (rule Cons.IH) (use srt once fresh in simp_all)
  with step show ?case by simp
qed


subsection \<open>Valid chains\<close>

text \<open>
  C1: for every sequence of fragment calls whose ranks are non-decreasing and in which
  Element, Id and PseudoElement each occur at most once, building the selector on a new
  instance raises no error, and \<open>stringify()\<close> returns the concatenation, in append
  order, of the fragment texts.
\<close>

theorem valid_chain_builds:
  assumes "sorted (map rank fs)" and "once_kinds fs"
  shows "\<exists>s. chain new_SelectorBuilder fs = Returned s \<and>
             stringify s = concat (map spec_fragment_text fs)"
proof -
  have "sorted (order new_SelectorBuilder # map rank fs)"
    using assms(1) by (simp add: new_SelectorBuilder_def ORDER_initial_def)
  moreover have "\<forall>f\<in>set fs. rank f \<noteq> order new_SelectorBuilder"
    using rank_pos by (simp add: new_SelectorBuilder_def less_imp_neq[symmetric] neq_commute)
  ultimately have "chain new_SelectorBuilder fs =
      Returned \<lparr>selector = selector new_SelectorBuilder @ concat (map spec_fragment_text fs),
                order = last (order new_SelectorBuilder # map rank fs)\<rparr>"
    using assms(2) by (intro chain_valid) simp_all
  then show ?thesis
    by (simp add: stringify_def new_SelectorBuilder_def)
qed


theorem valid_chain_builds_witness:
  \<open>sorted (map rank [Element ''a'', Attr ''href$=".png"'', PseudoClass ''focus'']) \<and>
   once_kinds [Element ''a'', Attr ''href$=".png"'', PseudoClass ''focus''] \<and>
   (\<exists>s. chain new_SelectorBuilder [Element ''a'', Attr ''href$=".png"'', PseudoClass ''focus'']
          = Returned s \<and> stringify s = ''a[href$=".png"]:focus'')\<close>
proof -
  let ?fs = \<open>[Element ''a'', Attr ''href$=".png"'', PseudoClass ''focus'']\<close>
  have h1: "sorted (map rank ?fs)" by (simp add: ORDER_defs)
  have h2: "once_kinds ?fs" by (simp add: once_kinds_def)
  from valid_chain_builds[OF h1 h2] h1 h2 show ?thesis by simp
qed


subsection \<open>The order guard\<close>

text \<open>
  C2: a fragment call throws the order message if and only if the rank of the new
  fragment is strictly lower than the recorded rank; the message is the fixed text naming
  the order element, id, class, attribute, pseudo-class, pseudo-element; and
  \<open>class(...)\<close> after \<open>attr(...)\<close> throws it.
\<close>

theorem order_violation_iff:
  "(thrown (call this f) = Some wrongOrderProblem \<longleftrightarrow> rank f < order this) \<and>
   wrongOrderProblem = ''Selector parts should be arranged in the following order: element, id, class, attribute, pseudo-class, pseudo-element'' \<and>
   and_then (cssSelectorBuilder_attr a) (\<lambda>s. class_sel s c) =
     Threw wrongOrderProblem \<lparr>selector = ''['' @ a @ '']'', order = ORDER_attribute\<rparr>"
proof (intro conjI)
  show "thrown (call this f) = Some wrongOrderProblem \<longleftrightarrow> rank f < order this"
    using messages_differ by (auto simp: call_cases)
  show "wrongOrderProblem = ''Selector parts should be arranged in the following order: element, id, class, attribute, pseudo-class, pseudo-element''"
    by (simp add: wrongOrderProblem_def)
  show "and_then (cssSelectorBuilder_attr a) (\<lambda>s. class_sel s c) =
     Threw wrongOrderProblem \<lparr>selector = ''['' @ a @ '']'', order = ORDER_attribute\<rparr>"
    by (simp add: cssSelectorBuilder_attr_def attr_def class_sel_def updateOrder_def
        new_SelectorBuilder_def ORDER_defs)
qed


theorem order_violation_iff_witness:
  "rank (Class ''c'') < order \<lparr>selector = ''[a]'', order = ORDER_attribute\<rparr> \<and>
   thrown (call \<lparr>selector = ''[a]'', order = ORDER_attribute\<rparr> (Class ''c'')) =
     Some wrongOrderProblem"
proof -
  have h: "rank (Class ''c'') < order \<lparr>selector = ''[a]'', order = ORDER_attribute\<rparr>"
    by (simp add: ORDER_defs)
  from order_violation_iff[of "\<lparr>selector = ''[a]'', order = ORDER_attribute\<rparr>" "Class ''c''"] h
  show ?thesis by simp
qed

subsection \<open>Repeated classes\<close>

lemma class_chain:
  "order this \<le> ORDER_class \<Longrightarrow>
   chain this (map Class names) =
     Returned \<lparr>selector = selector this @ concat (map (\<lambda>n. ''.'' @ n) names),
               order = (if names = [] then order this else ORDER_class)\<rparr>"
proof (induction names arbitrary: this)
  case Nil
  then show ?case by simp
next
  case (Cons n names)
  let ?this' = "\<lparr>selector = selector this @ ''.'' @ n, order = ORDER_class\<rparr>"
  from Cons.prems have step: "call this (Class n) = Returned ?this'"
    by (auto simp: call_cases ORDER_defs)
  have "chain ?this' (map Class names) =
     Returned \<lparr>selector = selector ?this' @ concat (map (\<lambda>n. ''.'' @ n) names),
               order = (if names = [] then order ?this' else ORDER_class)\<rparr>"
    by (rule Cons.IH) simp
  with step show ?case by simp
qed

lemma class_chain_late:
  "ORDER_class < order this \<Longrightarrow>
   thrown (chain this (map Class names)) = (if names = [] then None else Some wrongOrderProblem)"
  by (cases names) (auto simp: call_cases ORDER_defs)


text \<open>
  C5: any number of consecutive \<open>class(...)\<close> calls on the same selector never throws
  the uniqueness message, and on an instance whose recorded rank is at most that of
  class they all return; \<open>id('main').class('container').class('editable')\<close> stringifies
  to \<open>#main.container.editable\<close>.
\<close>

theorem repeated_class_never_duplicate:
  "thrown (chain this (map Class names)) \<noteq> Some uniquenessProblem \<and>
   (order this \<le> ORDER_class \<longrightarrow>
      chain this (map Class names) =
        Returned \<lparr>selector = selector this @ concat (map (\<lambda>n. ''.'' @ n) names),
                  order = (if names = [] then order this else ORDER_class)\<rparr>) \<and>
   and_then (and_then (cssSelectorBuilder_id ''main'') (\<lambda>s. class_sel s ''container''))
     (\<lambda>s. class_sel s ''editable'') =
     Returned \<lparr>selector = ''#main.container.editable'', order = ORDER_class\<rparr>"
proof (intro conjI impI)
  show "thrown (chain this (map Class names)) \<noteq> Some uniquenessProblem"
  proof (cases "order this \<le> ORDER_class")
    case True
    then show ?thesis by (simp add: class_chain)
  next
    case False
    then have "ORDER_class < order this" by simp
    then show ?thesis using messages_differ by (simp add: class_chain_late)
  qed
  show "and_then (and_then (cssSelectorBuilder_id ''main'') (\<lambda>s. class_sel s ''container''))
     (\<lambda>s. class_sel s ''editable'') =
     Returned \<lparr>selector = ''#main.container.editable'', order = ORDER_class\<rparr>"
    by (simp add: cssSelectorBuilder_id_def id_sel_def class_sel_def updateOrder_def
        new_SelectorBuilder_def ORDER_defs)
qed (rule class_chain)

theorem repeated_class_never_duplicate_witness:
  "order \<lparr>selector = ''#main'', order = ORDER_id\<rparr> \<le> ORDER_class \<and>
   chain \<lparr>selector = ''#main'', order = ORDER_id\<rparr> (map Class [''container'', ''editable'']) =
     Returned \<lparr>selector = ''#main.container.editable'', order = ORDER_class\<rparr> \<and>
   thrown (chain \<lparr>selector = ''#main'', order = ORDER_id\<rparr> (map Class [''container'', ''editable'']))
     \<noteq> Some uniquenessProblem"
proof -
  have h: "order \<lparr>selector = ''#main'', order = ORDER_id\<rparr> \<le> ORDER_class"
    by (simp add: ORDER_defs)
  from repeated_class_never_duplicate
    [of "\<lparr>selector = ''#main'', order = ORDER_id\<rparr>" "[''container'', ''editable'']"] h
  show ?thesis by simp
qed


subsection \<open>combine\<close>

text \<open>
  C4: for every pair of selectors and every combinator token the entry point
  \<open>combine\<close> returns (it has no failing branch) a selector whose \<open>stringify()\<close> is
  the left rendering, a space, the token, a space and the right rendering; combining
  \<open>div#main\<close> and \<open>table#data\<close> with \<open>+\<close> gives \<open>div#main + table#data\<close>.
\<close>

theorem combine_stringify:
  "stringify (cssSelectorBuilder_combine left token right) =
     stringify left @ '' '' @ token @ '' '' @ stringify right \<and>
   and_then (and_then (cssSelectorBuilder_element ''div'') (\<lambda>s. id_sel s ''main'')) (\<lambda>left.
     and_then (and_then (cssSelectorBuilder_element ''table'') (\<lambda>s. id_sel s ''data'')) (\<lambda>right.
       Returned (cssSelectorBuilder_combine left ''+'' right))) =
     Returned \<lparr>selector = ''div#main + table#data'', order = ORDER_initial\<rparr>"
  by (simp add: cssSelectorBuilder_combine_def combine_def stringify_def new_SelectorBuilder_def
      cssSelectorBuilder_element_def element_def id_sel_def updateOrder_def ORDER_defs)



text \<open>
  C6: the selector the entry point \<open>combine\<close> returns has the recorded rank Initial,
  whatever its two inputs held, so a call of any fragment kind on it returns, with the
  fragment text appended.
\<close>

theorem combined_selector_is_unconstrained:
  "order (cssSelectorBuilder_combine selector1 combinator selector2) = ORDER_initial \<and>
   call (cssSelectorBuilder_combine selector1 combinator selector2) f =
     Returned \<lparr>selector = stringify selector1 @ '' '' @ combinator @ '' '' @ stringify selector2
                            @ spec_fragment_text f,
               order = rank f\<rparr>"
proof -
  have "ORDER_initial < rank f" by (rule rank_pos)
  then show ?thesis
    by (simp add: call_cases cssSelectorBuilder_combine_def combine_def new_SelectorBuilder_def)
qed


text \<open>
  Against C10 as it is stated (every append of equal or lower rank on the result throws):
  the method \<open>combine\<close> called on an instance that already holds fragments keeps the
  recorded rank of that instance. A call of equal rank on the result is then refused
  only for the three kinds that the uniqueness guard names: after
  \<open>class('a').combine(p, '+', q)\<close> the call \<open>class('b')\<close> returns.
\<close>

theorem chained_combine_counterexample:
  "cssSelectorBuilder_class ''a'' = Returned \<lparr>selector = ''.a'', order = ORDER_class\<rparr> \<and>
   cssSelectorBuilder_element ''p'' = Returned \<lparr>selector = ''p'', order = ORDER_element\<rparr> \<and>
   cssSelectorBuilder_element ''q'' = Returned \<lparr>selector = ''q'', order = ORDER_element\<rparr> \<and>
   rank (Class ''b'') =
     order (combine \<lparr>selector = ''.a'', order = ORDER_class\<rparr>
              \<lparr>selector = ''p'', order = ORDER_element\<rparr> ''+''
              \<lparr>selector = ''q'', order = ORDER_element\<rparr>) \<and>
   call (combine \<lparr>selector = ''.a'', order = ORDER_class\<rparr>
           \<lparr>selector = ''p'', order = ORDER_element\<rparr> ''+''
           \<lparr>selector = ''q'', order = ORDER_element\<rparr>) (Class ''b'') =
     Returned \<lparr>selector = ''p + q.b'', order = ORDER_class\<rparr>"
  by (simp add: cssSelectorBuilder_class_def cssSelectorBuilder_element_def class_sel_def
      element_def updateOrder_def combine_def stringify_def new_SelectorBuilder_def ORDER_defs)

text \<open>
  C10 (as amended): the method \<open>combine\<close> called on a partly built selector overwrites
  the accumulated string with the combined rendering and leaves the recorded rank as it
  was, so the next fragment call throws exactly what it would have thrown before the
  combine: the order message for a lower rank, the uniqueness message for an equal rank
  of element, id or pseudo-element, and nothing otherwise.
\<close>

theorem chained_combine_keeps_rank:
  "selector (combine this selector1 combinator selector2) =
     stringify selector1 @ '' '' @ combinator @ '' '' @ stringify selector2 \<and>
   order (combine this selector1 combinator selector2) = order this \<and>
   thrown (call (combine this selector1 combinator selector2) f) = thrown (call this f) \<and>
   call (combine this selector1 combinator selector2) f =
     (if rank f = order this \<and> rank f \<in> set [ORDER_element, ORDER_id, ORDER_pseudoElement]
      then Threw uniquenessProblem (combine this selector1 combinator selector2)
      else if rank f < order this
      then Threw wrongOrderProblem (combine this selector1 combinator selector2)
      else Returned \<lparr>selector = stringify selector1 @ '' '' @ combinator @ '' '' @
                                 stringify selector2 @ spec_fragment_text f,
                     order = rank f\<rparr>)"
  by (auto simp: call_cases combine_def)


subsection \<open>A call that throws\<close>

text \<open>
  C8: for every instance and every fragment call, if the call throws (the order message
  or the uniqueness message, the only two there are), the accumulated string and the
  recorded rank of the instance are as they were before the call.
\<close>

theorem failed_call_leaves_instance:
  "thrown (call this f) \<noteq> None \<Longrightarrow> instance_after (call this f) = this"
  by (auto simp: call_cases split: if_splits)

theorem failed_call_leaves_instance_witness:
  "thrown (call \<lparr>selector = ''#a'', order = ORDER_id\<rparr> (Id ''b'')) \<noteq> None \<and>
   instance_after (call \<lparr>selector = ''#a'', order = ORDER_id\<rparr> (Id ''b'')) =
     \<lparr>selector = ''#a'', order = ORDER_id\<rparr>"
proof -
  have h: "thrown (call \<lparr>selector = ''#a'', order = ORDER_id\<rparr> (Id ''b'')) \<noteq> None"
    by (simp add: id_sel_def updateOrder_def)
  from failed_call_leaves_instance[OF h] h show ?thesis by simp
qed

subsection \<open>The uniqueness guard\<close>

text \<open>
  A chain that returns has passed both guards at every call: its ranks never decrease, the
  recorded rank at the end bounds them all, and none of the three guarded kinds occurs
  twice.
\<close>

lemma call_Returned:
  assumes "call this f = Returned this'"
  shows "order this \<le> rank f" and "order this' = rank f"
    and "rank f \<in> set [ORDER_element, ORDER_id, ORDER_pseudoElement] \<Longrightarrow> rank f \<noteq> order this"
  using assms by (auto simp: call_cases split: if_splits)

lemma chain_Cons_Returned:
  assumes "chain this (f # fs) = Returned s"
  obtains this' where "call this f = Returned this'" and "chain this' fs = Returned s"
  using assms by (cases "call this f") simp_all

lemma chain_returned_ranks:
  "chain this fs = Returned s \<Longrightarrow> order this \<le> order s \<and> (\<forall>g\<in>set fs. rank g \<le> order s)"
proof (induction fs arbitrary: this)
  case Nil
  then show ?case by simp
next
  case (Cons f fs)
  from Cons.prems obtain this' where
    step: "call this f = Returned this'" and rest: "chain this' fs = Returned s"
    by (rule chain_Cons_Returned)
  from Cons.IH[OF rest] call_Returned(1,2)[OF step] show ?case by auto
qed

lemma chain_returned_once:
  "chain this fs = Returned s \<Longrightarrow>
   once_kinds fs \<and>
   (\<forall>g\<in>set fs. order this \<le> rank g \<and>
      (rank g \<in> set [ORDER_element, ORDER_id, ORDER_pseudoElement] \<longrightarrow> rank g \<noteq> order this))"
proof (induction fs arbitrary: this)
  case Nil
  then show ?case by (simp add: once_kinds_def)
next
  case (Cons f fs)
  from Cons.prems obtain this' where
    step: "call this f = Returned this'" and rest: "chain this' fs = Returned s"
    by (rule chain_Cons_Returned)
  note c = call_Returned[OF step]
  from Cons.IH[OF rest] c(2)
  have once: "once_kinds fs"
    and later: "\<forall>g\<in>set fs. rank f \<le> rank g \<and>
      (rank g \<in> set [ORDER_element, ORDER_id, ORDER_pseudoElement] \<longrightarrow> rank g \<noteq> rank f)"
    by simp_all
  have no_Element: "\<not> is_Element g" if "is_Element f" "g \<in> set fs" for g
  proof
    assume "is_Element g"
    with that(1) have "rank g = rank f" "rank g \<in> set [ORDER_element, ORDER_id, ORDER_pseudoElement]"
      by (simp_all add: rank_Element[symmetric])
    with later that(2) show False by blast
  qed
  have no_Id: "\<not> is_Id g" if "is_Id f" "g \<in> set fs" for g
  proof
    assume "is_Id g"
    with that(1) have "rank g = rank f" "rank g \<in> set [ORDER_element, ORDER_id, ORDER_pseudoElement]"
      by (simp_all add: rank_Id[symmetric])
    with later that(2) show False by blast
  qed
  have no_PseudoElement: "\<not> is_PseudoElement g" if "is_PseudoElement f" "g \<in> set fs" for g
  proof
    assume "is_PseudoElement g"
    with that(1) have "rank g = rank f" "rank g \<in> set [ORDER_element, ORDER_id, ORDER_pseudoElement]"
      by (simp_all add: rank_PseudoElement[symmetric])
    with later that(2) show False by blast
  qed
  have "once_kinds (f # fs)"
    unfolding once_kinds_def filter_le_1_Cons
    using once no_Element no_Id no_PseudoElement by (simp add: once_kinds_def)
  moreover have "order this \<le> rank g \<and>
      (rank g \<in> set [ORDER_element, ORDER_id, ORDER_pseudoElement] \<longrightarrow> rank g \<noteq> order this)"
    if "g \<in> set (f # fs)" for g
  proof (cases "g = f")
    case True
    with c(1,3) show ?thesis by blast
  next
    case False
    with that have "g \<in> set fs" by simp
    with later have "rank f \<le> rank g"
      and "rank g \<in> set [ORDER_element, ORDER_id, ORDER_pseudoElement] \<Longrightarrow> rank g \<noteq> rank f"
      by blast+
    with c(1) show ?thesis by (metis le_antisym order_trans)
  qed
  ultimately show ?case by blast
qed

text \<open>
  Against C3 as it is stated (a second fragment of a guarded kind always throws the
  uniqueness message): the uniqueness guard compares the new rank with the recorded
  rank only, the rank of the latest fragment. After \<open>element('a').class('b')\<close> the recorded rank is that of
  class, and a second \<open>element('c')\<close> is refused by the order guard, with the order
  message.
\<close>

theorem second_once_kind_counterexample:
  "chain new_SelectorBuilder [Element ''a'', Class ''b''] =
     Returned \<lparr>selector = ''a.b'', order = ORDER_class\<rparr> \<and>
   call \<lparr>selector = ''a.b'', order = ORDER_class\<rparr> (Element ''c'') =
     Threw wrongOrderProblem \<lparr>selector = ''a.b'', order = ORDER_class\<rparr> \<and>
   wrongOrderProblem \<noteq> uniquenessProblem"
  using messages_differ
  by (simp add: element_def class_sel_def updateOrder_def new_SelectorBuilder_def ORDER_defs)


text \<open>
  C3 (as amended): a call of element, id or pseudoElement on a selector whose recorded
  rank is that same kind throws the uniqueness message, the fixed at-most-once text.
  On a selector that a chain has built with a fragment of that same kind in it, the call
  always throws: the uniqueness message when that kind is still the recorded rank, the
  order message when a fragment of a higher rank has come since. \<open>id(...)\<close> after
  \<open>id(...)\<close> throws the uniqueness message, and no chain that returns holds two
  Element, two Id or two PseudoElement fragments.
\<close>

theorem second_once_kind_refused:
  "(rank f = order this \<and> rank f \<in> set [ORDER_element, ORDER_id, ORDER_pseudoElement] \<longrightarrow>
      call this f = Threw uniquenessProblem this) \<and>
   (chain start fs = Returned s \<and> g \<in> set fs \<and> rank h = rank g \<and>
    rank h \<in> set [ORDER_element, ORDER_id, ORDER_pseudoElement] \<longrightarrow>
      call s h = Threw (if order s = rank h then uniquenessProblem else wrongOrderProblem) s) \<and>
   uniquenessProblem = ''Element, id and pseudo-element should not occur more then one time inside the selector'' \<and>
   and_then (cssSelectorBuilder_id a) (\<lambda>s. id_sel s b) =
     Threw uniquenessProblem \<lparr>selector = ''#'' @ a, order = ORDER_id\<rparr> \<and>
   (chain start fs = Returned s \<longrightarrow> once_kinds fs)"
proof (intro conjI impI)
  assume "rank f = order this \<and> rank f \<in> set [ORDER_element, ORDER_id, ORDER_pseudoElement]"
  then show "call this f = Threw uniquenessProblem this"
    by (auto simp: call_cases)
next
  assume a: "chain start fs = Returned s \<and> g \<in> set fs \<and> rank h = rank g \<and>
    rank h \<in> set [ORDER_element, ORDER_id, ORDER_pseudoElement]"
  with chain_returned_ranks[of start fs s] have "rank h \<le> order s" by auto
  with a show "call s h =
      Threw (if order s = rank h then uniquenessProblem else wrongOrderProblem) s"
    by (auto simp: call_cases)
next
  show "uniquenessProblem = ''Element, id and pseudo-element should not occur more then one time inside the selector''"
    by (simp add: uniquenessProblem_def)
next
  show "and_then (cssSelectorBuilder_id a) (\<lambda>s. id_sel s b) =
     Threw uniquenessProblem \<lparr>selector = ''#'' @ a, order = ORDER_id\<rparr>"
    by (simp add: cssSelectorBuilder_id_def id_sel_def updateOrder_def new_SelectorBuilder_def
        ORDER_defs)
next
  assume "chain start fs = Returned s"
  then show "once_kinds fs" by (simp add: chain_returned_once)
qed

theorem second_once_kind_refused_witness:
  "call \<lparr>selector = ''a'', order = ORDER_element\<rparr> (Element ''c'') =
     Threw uniquenessProblem \<lparr>selector = ''a'', order = ORDER_element\<rparr> \<and>
   chain new_SelectorBuilder [Element ''a'', Class ''b''] =
     Returned \<lparr>selector = ''a.b'', order = ORDER_class\<rparr> \<and>
   call \<lparr>selector = ''a.b'', order = ORDER_class\<rparr> (Element ''c'') =
     Threw wrongOrderProblem \<lparr>selector = ''a.b'', order = ORDER_class\<rparr> \<and>
   once_kinds [Element ''a'', Class ''b'']"
proof -
  let ?a = "\<lparr>selector = ''a'', order = ORDER_element\<rparr>"
  let ?ab = "\<lparr>selector = ''a.b'', order = ORDER_class\<rparr>"
  have h1: "rank (Element ''c'') = order ?a \<and>
      rank (Element ''c'') \<in> set [ORDER_element, ORDER_id, ORDER_pseudoElement]"
    by simp
  have h2: "chain new_SelectorBuilder [Element ''a'', Class ''b''] = Returned ?ab"
    by (simp add: element_def class_sel_def updateOrder_def new_SelectorBuilder_def ORDER_defs)
  have h3: "Element ''a'' \<in> set [Element ''a'', Class ''b''] \<and>
      rank (Element ''c'') = rank (Element ''a'') \<and>
      rank (Element ''c'') \<in> set [ORDER_element, ORDER_id, ORDER_pseudoElement]"
    by simp
  have h4: "order ?ab \<noteq> rank (Element ''c'')"
    by (simp add: ORDER_defs)
  from second_once_kind_refused[of "Element ''c''" ?a new_SelectorBuilder
      "[Element ''a'', Class ''b'']" ?ab "Element ''a''" "Element ''c''"] h1 h2 h3 h4
  show ?thesis by simp
qed


section \<open>Properties of Rectangle\<close>

lemma getArea_new_Rectangle:
  "r \<le> length (store st) \<Longrightarrow> getArea (snd (new_Rectangle st w h)) r = Some (w * h)"
  by (simp add: getArea_def new_Rectangle_def Let_def)

lemma store_new_Rectangle:
  "r < length (store st) \<Longrightarrow> store (snd (new_Rectangle st w h)) ! r = store st ! r"
  by (simp add: new_Rectangle_def Let_def nth_append)


text \<open>
  C9: constructing a Rectangle reassigns the shared prototype method \<open>getArea\<close> to a
  closure over the new instance. After \<open>a = new Rectangle(w1, h1)\<close> and
  \<open>b = new Rectangle(w2, h2)\<close>, \<open>a.getArea()\<close> returns \<open>w2 * h2\<close>, where it
  returned \<open>w1 * h1\<close> before \<open>b\<close> was made, although the fields of \<open>a\<close> still
  are \<open>w1\<close> and \<open>h1\<close>; and so does \<open>getArea\<close> of every instance made before.
\<close>

theorem getArea_is_of_latest_Rectangle:
  assumes "new_Rectangle st0 w1 h1 = (a, st1)" and "new_Rectangle st1 w2 h2 = (b, st2)"
  shows "getArea st1 a = Some (w1 * h1) \<and>
         getArea st2 a = Some (w2 * h2) \<and>
         getArea st2 b = Some (w2 * h2) \<and>
         width (store st2 ! a) = w1 \<and> height (store st2 ! a) = h1 \<and>
         (\<forall>r < length (store st1). getArea st2 r = Some (w2 * h2))"
proof -
  from assms(1) have a: "a = length (store st0)" and st1: "st1 = snd (new_Rectangle st0 w1 h1)"
    by (auto simp: new_Rectangle_def Let_def)
  from assms(2) have b: "b = length (store st1)" and st2: "st2 = snd (new_Rectangle st1 w2 h2)"
    by (auto simp: new_Rectangle_def Let_def)
  have len: "length (store st1) = Suc (length (store st0))"
    by (simp add: st1 new_Rectangle_def Let_def)
  have "getArea st1 a = Some (w1 * h1)"
    unfolding st1 a by (rule getArea_new_Rectangle) simp
  moreover have all: "\<forall>r \<le> length (store st1). getArea st2 r = Some (w2 * h2)"
    unfolding st2 by (simp add: getArea_new_Rectangle)
  moreover have "store st2 ! a = \<lparr>width = w1, height = h1\<rparr>"
    unfolding st2 using len a by (simp add: store_new_Rectangle) (simp add: st1 new_Rectangle_def Let_def)
  ultimately show ?thesis using a b len by simp
qed

theorem getArea_is_of_latest_Rectangle_witness:
  "new_Rectangle (initial_state :: int js_state) 2 3 =
     (0, \<lparr>store = [\<lparr>width = 2, height = 3\<rparr>], Rectangle_prototype_getArea = Some 0\<rparr>) \<and>
   new_Rectangle \<lparr>store = [\<lparr>width = 2, height = 3\<rparr>], Rectangle_prototype_getArea = Some 0\<rparr> 4 5 =
     (1, \<lparr>store = [\<lparr>width = 2, height = 3\<rparr>, \<lparr>width = 4, height = (5::int)\<rparr>],
          Rectangle_prototype_getArea = Some 1\<rparr>) \<and>
   getArea \<lparr>store = [\<lparr>width = 2, height = 3\<rparr>], Rectangle_prototype_getArea = Some 0\<rparr> 0 = Some (6::int) \<and>
   getArea \<lparr>store = [\<lparr>width = 2, height = 3\<rparr>, \<lparr>width = 4, height = (5::int)\<rparr>],
            Rectangle_prototype_getArea = Some 1\<rparr> 0 = Some 20"
proof -
  let ?st1 = "\<lparr>store = [\<lparr>width = 2, height = (3::int)\<rparr>], Rectangle_prototype_getArea = Some 0\<rparr>"
  let ?st2 = "\<lparr>store = [\<lparr>width = 2, height = 3\<rparr>, \<lparr>width = 4, height = (5::int)\<rparr>],
          Rectangle_prototype_getArea = Some 1\<rparr>"
  have h1: "new_Rectangle (initial_state :: int js_state) 2 3 = (0, ?st1)"
    by (simp add: new_Rectangle_def initial_state_def)
  have h2: "new_Rectangle ?st1 4 5 = (1, ?st2)"
    by (simp add: new_Rectangle_def)
  from getArea_is_of_latest_Rectangle[OF h1 h2] h1 h2 show ?thesis by simp
qed


section \<open>Properties of getJSON and fromJSON\<close>

subsection \<open>Strings\<close>

text \<open>Reading the quoted text of a string gives the string back.\<close>

lemma chars_differ [simp]:
  "quotation_mark \<noteq> reverse_solidus" "reverse_solidus \<noteq> quotation_mark"
  by (simp_all add: quotation_mark_def reverse_solidus_def)

lemma hex_value_hex_digit: "d < 16 \<Longrightarrow> hex_value (hex_digit d) = Some d"
  by (simp add: hex_value_def hex_digit_def Let_def)

lemma hex4_control:
  assumes "n < 32"
  shows "hex4 CHR ''0'' CHR ''0'' (hex_digit (n div 16)) (hex_digit (n mod 16)) = Some n"
proof -
  from assms have 1: "n div 16 < 16" by simp
  have 2: "n mod 16 < 16" by simp
  have 0: "hex_value CHR ''0'' = Some 0" by (simp add: hex_value_def)
  show ?thesis
    by (simp add: hex4_def 0 hex_value_hex_digit[OF 1] hex_value_hex_digit[OF 2])
qed

lemma parse_quote_char:
  "parse_string_chars (quote_char c @ t) = cons_char c (parse_string_chars t)"
proof -
  consider (b) "c = CHR 0x08" | (t) "c = CHR 0x09" | (n) "c = CHR 0x0A" | (f) "c = CHR 0x0C"
    | (r) "c = CHR 0x0D" | (q) "c = quotation_mark" | (s) "c = reverse_solidus"
    | (ctl) "c \<notin> {CHR 0x08, CHR 0x09, CHR 0x0A, CHR 0x0C, CHR 0x0D, quotation_mark, reverse_solidus}"
        "(of_char c :: nat) < 32"
    | (plain) "c \<notin> {CHR 0x08, CHR 0x09, CHR 0x0A, CHR 0x0C, CHR 0x0D, quotation_mark, reverse_solidus}"
        "\<not> (of_char c :: nat) < 32"
    by blast
  then show ?thesis
  proof cases
    case ctl
    then have qc: "quote_char c = [reverse_solidus, CHR ''u'', CHR ''0'', CHR ''0'',
            hex_digit (of_char c div 16), hex_digit (of_char c mod 16)]"
      by (simp add: quote_char_def)
    show ?thesis
      unfolding qc using hex4_control[OF ctl(2)] ctl(2) by simp
  next
    case plain
    then show ?thesis by (simp add: quote_char_def)
  qed (simp_all add: quote_char_def unescape_def quotation_mark_def reverse_solidus_def)
qed

lemma parse_quoted_chars:
  "parse_string_chars (concat (map quote_char s) @ quotation_mark # r) = Some (s, r)"
  by (induction s) (simp_all add: parse_quote_char cons_char_def)



subsection \<open>Numbers\<close>

text \<open>Reading the decimal text of an integer gives the integer back.\<close>

declare digits.simps [simp del]

lemma digits_small: "n < 10 \<Longrightarrow> digits n = [digit_char n]"
  by (subst digits.simps) simp

lemma digits_large: "\<not> n < 10 \<Longrightarrow> digits n = digits (n div 10) @ [digit_char (n mod 10)]"
  by (subst digits.simps) simp

lemma is_digit_digit_char: "d < 10 \<Longrightarrow> is_digit (digit_char d)"
  by (simp add: is_digit_def digit_char_def)

lemma digit_value_digit_char: "d < 10 \<Longrightarrow> digit_value (digit_char d) = d"
  by (simp add: digit_value_def digit_char_def)

lemma digit_char_zero: "d < 10 \<Longrightarrow> digit_char d = CHR ''0'' \<longleftrightarrow> d = 0"
proof -
  assume d: "d < 10"
  have "(of_char (digit_char d) :: nat) = of_char CHR ''0'' \<longleftrightarrow> digit_char d = CHR ''0''"
    by (rule of_char_eq_iff)
  moreover have "(of_char (digit_char d) :: nat) = of_char CHR ''0'' \<longleftrightarrow> d = 0"
    using d by (simp add: digit_char_def)
  ultimately show ?thesis by simp
qed

lemma digits_not_Nil: "digits n \<noteq> []"
  by (cases "n < 10") (simp_all add: digits_small digits_large)

lemma digits_all_digit: "c \<in> set (digits n) \<Longrightarrow> is_digit c"
proof (induction n arbitrary: c rule: digits.induct)
  case (1 n)
  show ?case
  proof (cases "n < 10")
    case True
    with "1.prems" show ?thesis by (simp add: digits_small is_digit_digit_char)
  next
    case False
    with "1.prems" have "c \<in> set (digits (n div 10)) \<or> c = digit_char (n mod 10)"
      by (auto simp: digits_large)
    with "1.IH"[OF False] show ?thesis by (auto simp: is_digit_digit_char)
  qed
qed

lemma value_of_digits_snoc:
  "value_of_digits (ds @ [c]) = 10 * value_of_digits ds + digit_value c"
  by (simp add: value_of_digits_def)

lemma value_of_digits_digits: "value_of_digits (digits n) = n"
proof (induction n rule: digits.induct)
  case (1 n)
  show ?case
  proof (cases "n < 10")
    case True
    then show ?thesis by (simp add: digits_small value_of_digits_def digit_value_digit_char)
  next
    case False
    have "value_of_digits (digits n) =
        10 * value_of_digits (digits (n div 10)) + digit_value (digit_char (n mod 10))"
      using False by (simp add: digits_large value_of_digits_snoc)
    with "1.IH"[OF False] show ?thesis by (simp add: digit_value_digit_char)
  qed
qed

lemma hd_digits: "1 < length (digits n) \<Longrightarrow> hd (digits n) \<noteq> CHR ''0''"
proof (induction n rule: digits.induct)
  case (1 n)
  show ?case
  proof (cases "n < 10")
    case True
    with "1.prems" show ?thesis by (simp add: digits_small)
  next
    case False
    then have hd: "hd (digits n) = hd (digits (n div 10))"
      by (simp add: digits_large digits_not_Nil)
    show ?thesis
    proof (cases "n div 10 < 10")
      case True
      from False have "n div 10 \<noteq> 0" by simp
      with True show ?thesis unfolding hd by (simp add: digits_small digit_char_zero)
    next
      case False
      then have "1 < length (digits (n div 10))"
        using digits_not_Nil[of "n div 10 div 10"]
        by (simp add: digits_large[of "n div 10"] Suc_lessI)
      with "1.IH"[OF \<open>\<not> n < 10\<close>] show ?thesis unfolding hd by simp
    qed
  qed
qed

lemma takeWhile_digits:
  "(case r of [] \<Rightarrow> True | c # _ \<Rightarrow> \<not> is_digit c) \<Longrightarrow>
   takeWhile is_digit (digits n @ r) = digits n \<and> dropWhile is_digit (digits n @ r) = r"
  by (cases r) (simp_all add: takeWhile_append2 dropWhile_append2 digits_all_digit
      takeWhile_eq_all_conv)

lemma not_digit_minus: "\<not> is_digit CHR ''-''"
  by (simp add: is_digit_def)

lemma hd_digits_not_minus: "hd (digits n) \<noteq> CHR ''-''"
  using digits_all_digit[of "hd (digits n)" n] digits_not_Nil[of n] not_digit_minus
  by (metis hd_in_set)

lemma ends_value_props:
  assumes "ends_value r"
  shows "(case r of [] \<Rightarrow> True | c # _ \<Rightarrow> \<not> is_digit c)"
    and "\<not> (case r of [] \<Rightarrow> False | c # _ \<Rightarrow> c \<in> set ''.eE'')"
  using assms by (auto simp: ends_value_def is_digit_def split: list.splits)

lemma parse_number_text:
  assumes "ends_value r"
  shows "parse_number (number_text i @ r) = Some (i, r)"
proof (cases "i < 0")
  case True
  let ?n = "nat (- i)"
  from True have pos: "?n \<noteq> 0" by simp
  have shape: "number_text i @ r = CHR ''-'' # (digits ?n @ r)"
    using True by (simp add: number_text_def)
  note tk = takeWhile_digits[OF ends_value_props(1)[OF assms], of ?n]
  have lead: "\<not> (hd (digits ?n) = CHR ''0'' \<and> 1 < length (digits ?n))"
    using hd_digits by blast
  show ?thesis
    unfolding shape parse_number_def
    using tk lead pos ends_value_props(2)[OF assms] True
    by (simp add: Let_def digits_not_Nil value_of_digits_digits)
next
  case False
  let ?n = "nat i"
  have shape: "number_text i @ r = digits ?n @ r"
    using False by (simp add: number_text_def)
  have first: "(case digits ?n @ r of [] \<Rightarrow> False | c # _ \<Rightarrow> c = CHR ''-'') = False"
    using hd_digits_not_minus[of ?n] digits_not_Nil[of ?n]
    by (cases "digits ?n") simp_all
  note tk = takeWhile_digits[OF ends_value_props(1)[OF assms], of ?n]
  have lead: "\<not> (hd (digits ?n) = CHR ''0'' \<and> 1 < length (digits ?n))"
    using hd_digits by blast
  show ?thesis
    unfolding shape parse_number_def first
    using tk lead ends_value_props(2)[OF assms] False
    by (simp add: Let_def digits_not_Nil value_of_digits_digits)
qed



subsection \<open>Objects\<close>

text \<open>
  Every parser consumes a part of its text, so the length test of \<open>parse_members\<close>
  never fails.
\<close>

lemma parse_string_chars_shorter:
  "parse_string_chars s = Some (x, r) \<Longrightarrow> length r < length s"
  by (induction s arbitrary: x r rule: parse_string_chars.induct)
    (fastforce simp: cons_char_def split: if_splits list.splits option.splits)+

lemma parse_number_shorter: "parse_number s = Some (i, r) \<Longrightarrow> length r < length s"
proof -
  assume a: "parse_number s = Some (i, r)"
  define t where "t = (if (case s of [] \<Rightarrow> False | c # _ \<Rightarrow> c = CHR ''-'') then tl s else s)"
  from a have r: "r = dropWhile is_digit t" and ne: "takeWhile is_digit t \<noteq> []"
    by (auto simp: parse_number_def Let_def t_def split: if_splits)
  have "length (takeWhile is_digit t) + length (dropWhile is_digit t) = length t"
    by (metis length_append takeWhile_dropWhile_id)
  with ne have "length r < length t" unfolding r by (cases "takeWhile is_digit t") auto
  moreover have "length t \<le> length s" by (simp add: t_def)
  ultimately show ?thesis by simp
qed

lemma parse_value_shorter: "parse_value s = Some (v, r) \<Longrightarrow> length r < length s"
  by (auto simp: parse_value_def literal_def split: list.splits if_splits option.splits
      dest: parse_string_chars_shorter parse_number_shorter)

lemma parse_member_shorter: "parse_member s = Some (k, v, r) \<Longrightarrow> length r < length s"
  by (fastforce simp: parse_member_def split: list.splits if_splits option.splits
      dest: parse_string_chars_shorter parse_value_shorter)


lemma parse_members_unguarded:
  "parse_members obj s =
     (case parse_member s of
        None \<Rightarrow> None
      | Some (k, v, r) \<Rightarrow>
          (case r of
             [] \<Rightarrow> None
           | c # r' \<Rightarrow>
               (if c = CHR '','' then parse_members (CreateDataProperty obj k v) r'
                else if c = CHR ''}'' \<and> r' = [] then Some (CreateDataProperty obj k v)
                else None)))"
proof (cases "parse_member s")
  case None
  then show ?thesis by (subst parse_members.simps) simp
next
  case (Some m)
  obtain k v r where m: "m = (k, v, r)" by (cases m)
  show ?thesis
  proof (cases r)
    case Nil
    with Some m show ?thesis by (subst parse_members.simps) simp
  next
    case (Cons c r')
    from Some m Cons have "length (c # r') < length s"
      using parse_member_shorter[of s k v r] by simp
    then have "length r' < length s" by simp
    with Some m Cons show ?thesis by (subst parse_members.simps) simp
  qed
qed

text \<open>
  The text of a flat object with distinct keys, none an array index, and no value
  \<open>undefined\<close> is read back as the object.
\<close>

declare parse_members.simps [simp del]

lemma number_text_first:
  "\<exists>c cs. number_text i = c # cs \<and> (c = CHR ''-'' \<or> is_digit c)"
proof (cases "i < 0")
  case True
  then show ?thesis by (simp add: number_text_def)
next
  case False
  obtain c cs where d: "digits (nat i) = c # cs"
    using digits_not_Nil[of "nat i"] by (cases "digits (nat i)") auto
  then have "is_digit c" using digits_all_digit[of c "nat i"] by simp
  with d False show ?thesis by (simp add: number_text_def)
qed

lemma parse_value_number:
  assumes "c = CHR ''-'' \<or> is_digit c"
  shows "parse_value (c # cs) =
    (case parse_number (c # cs) of None \<Rightarrow> None | Some (i, r) \<Rightarrow> Some (Number i, r))"
proof -
  from assms have "c \<noteq> quotation_mark" "c \<noteq> CHR ''n''" "c \<noteq> CHR ''t''" "c \<noteq> CHR ''f''"
    by (auto simp: is_digit_def quotation_mark_def)
  then show ?thesis by (simp add: parse_value_def)
qed

lemma parse_value_text:
  assumes "value_text v = Some t" and "ends_value r"
  shows "parse_value (t @ r) = Some (v, r)"
proof (cases v)
  case Undefined
  with assms(1) show ?thesis by (simp add: value_text_def)
next
  case Null
  with assms(1) show ?thesis
    by (auto simp: value_text_def parse_value_def literal_def quotation_mark_def)
next
  case (Boolean b)
  with assms(1) show ?thesis
    by (auto simp: value_text_def parse_value_def literal_def quotation_mark_def)
next
  case (Number i)
  with assms(1) have t: "t = number_text i" by (simp add: value_text_def)
  from number_text_first[of i] obtain c cs where
    nt: "number_text i = c # cs" and c: "c = CHR ''-'' \<or> is_digit c" by blast
  have "parse_value ((c # cs) @ r) =
    (case parse_number ((c # cs) @ r) of None \<Rightarrow> None | Some (i, r) \<Rightarrow> Some (Number i, r))"
    using parse_value_number[OF c, of "cs @ r"] by simp
  then show ?thesis
    unfolding t Number nt[symmetric] by (simp add: parse_number_text[OF assms(2)])
next
  case (Str s)
  with assms(1) have t: "t = QuoteJSONString s" by (simp add: value_text_def)
  show ?thesis
    unfolding t Str by (simp add: QuoteJSONString_def parse_value_def parse_quoted_chars)
qed

lemma parse_member_text:
  assumes "member_text (k, v) = Some t" and "ends_value r"
  shows "parse_member (t @ r) = Some (k, v, r)"
proof -
  from assms(1) obtain vt where vt: "value_text v = Some vt"
    and t: "t = QuoteJSONString k @ '':'' @ vt"
    by (auto simp: member_text_def split: option.splits)
  have "t @ r = quotation_mark # concat (map quote_char k) @ quotation_mark # CHR '':'' # (vt @ r)"
    by (simp add: t QuoteJSONString_def)
  then show ?thesis
    by (simp add: parse_member_def parse_quoted_chars parse_value_text[OF vt assms(2)])
qed

lemma join_comma_Cons:
  "join_comma (x # xs) = x @ (if xs = [] then [] else '','' @ join_comma xs)"
  by (cases xs) simp_all

lemma CreateDataProperty_new:
  "k \<notin> fst ` set obj \<Longrightarrow> \<not> is_array_index k \<Longrightarrow> CreateDataProperty obj k v = obj @ [(k, v)]"
  by (simp add: CreateDataProperty_def)

lemma parse_members_join:
  assumes "ps \<noteq> []" and "distinct (map fst (acc @ ps))"
    and "\<forall>p\<in>set ps. \<not> is_array_index (fst p) \<and> snd p \<noteq> Undefined"
  shows "parse_members acc (join_comma (map (the \<circ> member_text) ps) @ ''}'') = Some (acc @ ps)"
  using assms
proof (induction ps arbitrary: acc)
  case Nil
  then show ?case by simp
next
  case (Cons p ps)
  obtain k v where p: "p = (k, v)" by (cases p)
  from Cons.prems(3) p have v: "v \<noteq> Undefined" and k: "\<not> is_array_index k" by auto
  from v obtain t where t: "member_text (k, v) = Some t"
    by (cases v) (auto simp: member_text_def value_text_def)
  from Cons.prems(2) p have new: "k \<notin> fst ` set acc" by auto
  note create = CreateDataProperty_new[OF new k, of v]
  show ?case
  proof (cases "ps = []")
    case True
    have "parse_member (t @ ''}'') = Some (k, v, ''}'')"
      by (rule parse_member_text[OF t]) (simp add: ends_value_def)
    then show ?thesis
      using True p t create by (subst parse_members.simps) simp
  next
    case False
    let ?rest = "'','' @ join_comma (map (the \<circ> member_text) ps) @ ''}''"
    have "parse_member (t @ ?rest) = Some (k, v, ?rest)"
      by (rule parse_member_text[OF t]) (simp add: ends_value_def)
    moreover have "parse_members (acc @ [p]) (join_comma (map (the \<circ> member_text) ps) @ ''}'')
        = Some ((acc @ [p]) @ ps)"
      using False Cons.prems(2,3) by (intro Cons.IH) auto
    ultimately show ?thesis
      using False p t create
      by (subst parse_members.simps) (simp add: join_comma_Cons)
  qed
qed

lemma map_filter_member_text:
  "\<forall>p\<in>set obj. snd p \<noteq> Undefined \<Longrightarrow>
   List.map_filter member_text obj = map (the \<circ> member_text) obj"
proof (induction obj)
  case Nil
  then show ?case by (simp add: List.map_filter_simps)
next
  case (Cons p obj)
  then have "snd p \<noteq> Undefined" by simp
  then obtain t where "member_text p = Some t"
    by (cases "snd p") (auto simp: member_text_def value_text_def)
  with Cons show ?case by (simp add: List.map_filter_simps)
qed

lemma member_text_not_Nil: "member_text p = Some t \<Longrightarrow> t \<noteq> []"
  by (auto simp: member_text_def QuoteJSONString_def split: option.splits)

lemma parse_stringify_object:
  assumes "distinct (map fst obj)"
    and "\<forall>p\<in>set obj. \<not> is_array_index (fst p) \<and> snd p \<noteq> Undefined"
  shows "parse_object (stringify_object obj) = Some obj"
proof (cases "obj = []")
  case True
  then show ?thesis
    by (simp add: parse_object_def stringify_object_def List.map_filter_simps)
next
  case False
  from assms(2) have mf: "List.map_filter member_text obj = map (the \<circ> member_text) obj"
    by (simp add: map_filter_member_text)
  let ?body = "join_comma (map (the \<circ> member_text) obj) @ ''}''"
  from False obtain p ps where obj: "obj = p # ps" by (cases obj) auto
  from assms(2) obj have "snd p \<noteq> Undefined" by simp
  then obtain t where t: "member_text p = Some t"
    by (cases "snd p") (auto simp: member_text_def value_text_def)
  have "?body \<noteq> ''}''"
    using member_text_not_Nil[OF t] t unfolding obj by (simp add: join_comma_Cons)
  moreover have "parse_members [] ?body = Some ([] @ obj)"
    using False assms by (intro parse_members_join) simp_all
  ultimately show ?thesis
    by (simp add: parse_object_def stringify_object_def mf)
qed

lemma foldl_CreateDataProperty:
  assumes "length ks = length vs" and "distinct (map fst acc @ ks)"
    and "\<forall>k\<in>set ks. \<not> is_array_index k"
  shows "foldl (\<lambda>this (p, a). CreateDataProperty this p a) acc (zip ks vs) = acc @ zip ks vs"
  using assms
proof (induction ks vs arbitrary: acc rule: list_induct2)
  case Nil
  then show ?case by simp
next
  case (Cons k ks v vs)
  from Cons.prems have "k \<notin> fst ` set acc" and "\<not> is_array_index k" by auto
  then have step: "CreateDataProperty acc k v = acc @ [(k, v)]"
    by (rule CreateDataProperty_new)
  have "foldl (\<lambda>this (p, a). CreateDataProperty this p a) (acc @ [(k, v)]) (zip ks vs) =
      (acc @ [(k, v)]) @ zip ks vs"
    using Cons.prems by (intro Cons.IH) auto
  with step show ?case by simp
qed

lemma field_constructor_fields:
  assumes "distinct (Object_keys obj)" and "\<forall>p\<in>set obj. \<not> is_array_index (fst p)"
  shows "field_constructor (Object_keys obj) (Object_values obj) = obj"
proof -
  have args: "arguments (length (map fst obj)) (map snd obj) = map snd obj"
    by (simp add: arguments_def)
  have "foldl (\<lambda>this (p, a). CreateDataProperty this p a) [] (zip (map fst obj) (map snd obj)) =
      [] @ zip (map fst obj) (map snd obj)"
    using assms by (intro foldl_CreateDataProperty) (auto simp: Object_keys_def)
  then have "foldl (\<lambda>this (p, a). CreateDataProperty this p a) []
      (zip (map fst obj) (map snd obj)) = obj"
    by (simp add: zip_map_fst_snd)
  then show ?thesis
    unfolding field_constructor_def Object_keys_def Object_values_def args .
qed


lemma simple_value_defined: "simple_value v \<Longrightarrow> v \<noteq> Undefined"
  by (cases v) (simp_all add: simple_value_def)

text \<open>
  Two objects that are not in reach of the round trip. A property whose value is
  \<open>undefined\<close> is left out of the text, so the values that follow it move one
  parameter up. And when the enumeration order of the object is not the order of the
  parameters, the values come back under the other names.
\<close>

lemma undefined_value_example:
  "fromJSON ECMAScript_JSON \<lparr>constructor = field_constructor [''a'', ''b'']\<rparr>
     (getJSON ECMAScript_JSON [(''a'', Undefined), (''b'', Number 1)]) =
   Some [(''a'', Number 1), (''b'', Undefined)]"
proof -
  have key: "\<not> is_array_index ''a''" "\<not> is_array_index ''b''"
    by (simp_all add: is_array_index_def is_digit_def)
  have "stringify_object [(''a'', Undefined), (''b'', Number 1)] =
      stringify_object [(''b'', Number 1)]"
    by (simp add: stringify_object_def List.map_filter_simps member_text_def value_text_def)
  moreover have "parse_object (stringify_object [(''b'', Number 1)]) = Some [(''b'', Number 1)]"
    using key by (intro parse_stringify_object) simp_all
  ultimately show ?thesis
    using key
    by (simp add: fromJSON_def getJSON_def ECMAScript_JSON_def Object_values_def
        field_constructor_def arguments_def CreateDataProperty_def)
qed

lemma swapped_parameters_example:
  "fromJSON ECMAScript_JSON \<lparr>constructor = field_constructor [''width'', ''height'']\<rparr>
     (getJSON ECMAScript_JSON [(''height'', Number 20), (''width'', Number 10)]) =
   Some [(''width'', Number 20), (''height'', Number 10)]"
proof -
  have key: "\<not> is_array_index ''width''" "\<not> is_array_index ''height''"
    by (simp_all add: is_array_index_def is_digit_def)
  have "parse_object (stringify_object [(''height'', Number 20), (''width'', Number 10)]) =
      Some [(''height'', Number 20), (''width'', Number 10)]"
    using key by (intro parse_stringify_object) simp_all
  then show ?thesis
    using key
    by (simp add: fromJSON_def getJSON_def ECMAScript_JSON_def Object_values_def
        field_constructor_def arguments_def CreateDataProperty_def)
qed

text \<open>
  C7: for every simple flat object (distinct keys that are not array indices; values
  that are null, booleans, safe integers or strings), \<open>fromJSON(proto, getJSON(obj))\<close>
  returns what the constructor of the prototype makes of the values of the object,
  passed positionally in its enumeration order; and when that constructor takes its
  fields positionally in the enumeration order of the object, the result has the fields
  of the original, each name with its value.
\<close>

theorem fromJSON_getJSON_roundtrip:
  assumes "distinct (Object_keys obj)"
    and "\<forall>p\<in>set obj. \<not> is_array_index (fst p) \<and> simple_value (snd p)"
  shows "fromJSON ECMAScript_JSON proto (getJSON ECMAScript_JSON obj) =
           Some (constructor proto (Object_values obj)) \<and>
         (constructor proto = field_constructor (Object_keys obj) \<and>
          ''__proto__'' \<notin> set (Object_keys obj) \<longrightarrow>
            fromJSON ECMAScript_JSON proto (getJSON ECMAScript_JSON obj) = Some obj)"
proof -
  from assms(2) have defined: "\<forall>p\<in>set obj. \<not> is_array_index (fst p) \<and> snd p \<noteq> Undefined"
    using simple_value_defined by blast
  have "parse_object (stringify_object obj) = Some obj"
    using assms(1) defined by (intro parse_stringify_object) (simp_all add: Object_keys_def)
  then have 1: "fromJSON ECMAScript_JSON proto (getJSON ECMAScript_JSON obj) =
           Some (constructor proto (Object_values obj))"
    by (simp add: fromJSON_def getJSON_def ECMAScript_JSON_def)
  have "field_constructor (Object_keys obj) (Object_values obj) = obj"
    using assms(1) defined by (intro field_constructor_fields) simp_all
  with 1 show ?thesis by simp
qed

lemma digit_char_0_1: "digit_char 0 = CHR ''0''" "digit_char (Suc 0) = CHR ''1''"
  by (rule of_char_eqI[where ?'a = nat], simp add: digit_char_def)+

lemma radius_text:
  \<open>getJSON ECMAScript_JSON [(''radius'', Number 10)] = ''{"radius":10}''\<close>
  by (simp add: getJSON_def ECMAScript_JSON_def stringify_object_def List.map_filter_simps
      member_text_def value_text_def QuoteJSONString_def quote_char_def number_text_def
      digits_small digits_large digit_char_0_1 quotation_mark_def reverse_solidus_def)

theorem fromJSON_getJSON_roundtrip_witness:
  \<open>distinct (Object_keys [(''radius'', Number 10)]) \<and>
   \<not> is_array_index ''radius'' \<and> simple_value (Number 10) \<and>
   ''__proto__'' \<notin> set (Object_keys [(''radius'', Number 10)]) \<and>
   getJSON ECMAScript_JSON [(''radius'', Number 10)] = ''{"radius":10}'' \<and>
   fromJSON ECMAScript_JSON \<lparr>constructor = field_constructor [''radius'']\<rparr> ''{"radius":10}'' =
     Some [(''radius'', Number 10)]\<close>
proof -
  let ?obj = "[(''radius'', Number 10)]"
  let ?proto = "\<lparr>constructor = field_constructor [''radius'']\<rparr>"
  have h0: "\<not> is_array_index ''radius''"
    by (simp add: is_array_index_def is_digit_def)
  have h1: "distinct (Object_keys ?obj)"
    by (simp add: Object_keys_def)
  have h2: "simple_value (Number 10)"
    by (simp add: simple_value_def safe_integer_def)
  have h3: "\<forall>p\<in>set ?obj. \<not> is_array_index (fst p) \<and> simple_value (snd p)"
    using h0 h2 by simp
  have h4: "constructor ?proto = field_constructor (Object_keys ?obj)"
    by (simp add: Object_keys_def)
  have h5: "''__proto__'' \<notin> set (Object_keys ?obj)"
    by (simp add: Object_keys_def)
  from fromJSON_getJSON_roundtrip[OF h1 h3, of ?proto] h4 h5
  have "fromJSON ECMAScript_JSON ?proto (getJSON ECMAScript_JSON ?obj) = Some ?obj"
    by blast
  with h0 h1 h2 h5 radius_text show ?thesis by simp
qed

end
